theory Spec2Isabelle
  imports Main "HOL-Library.AList"
begin

section \<open>Python values used by \<^verbatim>\<open>pylib/bastok/charset.py\<close>\<close>

text \<open>
  A Python \<^verbatim>\<open>str\<close> is a sequence of Unicode code points; it is modelled as the list of
  its code points, so that \<^verbatim>\<open>len\<close> counts code points as Python does (Python's code
  points end at U+10FFFF; \<open>py_chr\<close> below checks that bound, and nothing else depends on
  it).  Native codes are Python's unbounded \<^verbatim>\<open>int\<close>.  The arguments that the source
  inspects with \<^verbatim>\<open>isinstance(u, str)\<close> range over \<open>pyobj\<close>, which also has values that
  are no \<^verbatim>\<open>str\<close>.
\<close>

type_synonym pystr = "nat list"

datatype pyobj = PyStr pystr | PyInt int | PyNone

definition lit :: "string \<Rightarrow> pystr" where
  "lit s = map of_char s"

text \<open>
  A raised exception is its class together with the data its message is formatted from
  (the message texts themselves are not rendered, except for that of
  \<^verbatim>\<open>NotImplementedError\<close>, which names the character set).
\<close>

datatype exc_class =
  ValueError | RuntimeError | KeyError | NotImplementedError | LookupError
  | AssertionError | TypeError

datatype exc_detail =
    BadNativeCode int
  | NotAStr pyobj
  | NotLength1 pyobj
  | Incomplete nat nat
  | MissingKey pyobj
  | Message pystr
  | NotReplaced "int \<times> pyobj"
  | Asserted pyobj
  | NoLen pyobj
  | BadOrd pyobj
  | ChrRange int
  | ByteRange "int list"

type_synonym error = "exc_class \<times> exc_detail"

text \<open>
  A Python \<^verbatim>\<open>dict\<close> keeps its keys in insertion order, and assigning to a key that is
  present keeps the key's position: this is an association list with
  \<^const>\<open>AList.update\<close>; \<^verbatim>\<open>len\<close> is \<^const>\<open>length\<close> and a lookup is
  \<^const>\<open>map_of\<close>, a miss raising \<^verbatim>\<open>KeyError\<close>.
\<close>

type_synonym ('k, 'v) dict = "('k \<times> 'v) list"

definition getitem :: "('k, 'v) dict \<Rightarrow> 'k \<Rightarrow> ('k \<Rightarrow> pyobj) \<Rightarrow> error + 'v" where
  "getitem d k key_obj =
     (case map_of d k of None \<Rightarrow> Inl (KeyError, MissingKey (key_obj k)) | Some v \<Rightarrow> Inr v)"

text \<open>\<^verbatim>\<open>bytes(xs)\<close> of a list of ints: every element must be in \<^verbatim>\<open>range(256)\<close>.\<close>

definition bytes :: "int list \<Rightarrow> error + int list" where
  "bytes xs = (if list_all (\<lambda>x. 0 \<le> x \<and> x < 256) xs then Inr xs
               else Inl (ValueError, ByteRange xs))"

definition py_chr :: "int \<Rightarrow> error + pyobj" where
  "py_chr i = (if 0 \<le> i \<and> i \<le> 0x10FFFF then Inr (PyStr [nat i])
               else Inl (ValueError, ChrRange i))"

definition py_ord :: "pyobj \<Rightarrow> error + int" where
  "py_ord u = (case u of PyStr [c] \<Rightarrow> Inr (int c) | _ \<Rightarrow> Inl (TypeError, BadOrd u))"

text \<open>Python compares two \<^verbatim>\<open>str\<close> values lexicographically by code point.\<close>

fun str_lt :: "pystr \<Rightarrow> pystr \<Rightarrow> bool" where
  "str_lt [] [] = False"
| "str_lt [] (y # ys) = True"
| "str_lt (x # xs) [] = False"
| "str_lt (x # xs) (y # ys) = (x < y \<or> (x = y \<and> str_lt xs ys))"

definition str_ge :: "pystr \<Rightarrow> pystr \<Rightarrow> bool" where
  "str_ge u v = (\<not> str_lt u v)"

section \<open>class Charset\<close>

record charset =
  description :: pystr
  nu :: "(int, pyobj) dict"
  un :: "(pyobj, int) dict"

definition ncheck :: "int \<Rightarrow> error + unit" where
  "ncheck n = (if n < 0 \<or> n > 0xFF then Inl (ValueError, BadNativeCode n) else Inr ())"

definition ucheck :: "pyobj \<Rightarrow> error + unit" where
  "ucheck u =
     (case u of
        PyStr s \<Rightarrow> if length s \<noteq> 1 then Inl (ValueError, NotLength1 u) else Inr ()
      | _ \<Rightarrow> Inl (ValueError, NotAStr u))"

text \<open>
  \<^verbatim>\<open>setchars\<close> mutates the object and may raise half-way: the model returns the outcome
  together with the state the object is left in.
\<close>

fun setchars :: "charset \<Rightarrow> (int \<times> pyobj) list \<Rightarrow> (error + unit) \<times> charset" where
  "setchars self [] = (Inr (), self)"
| "setchars self ((n, u) # m) =
     (case ncheck n of
        Inl e \<Rightarrow> (Inl e, self)
      | Inr _ \<Rightarrow>
          (case ucheck u of
             Inl e \<Rightarrow> (Inl e, self)
           | Inr _ \<Rightarrow>
               setchars (self\<lparr>nu := AList.update n u (nu self),
                               un := AList.update u n (un self)\<rparr>) m))"

text \<open>The loop \<^verbatim>\<open>for m in maps: self.setchars(m)\<close> of the constructor.\<close>

fun setchars_all :: "charset \<Rightarrow> (int \<times> pyobj) list list \<Rightarrow> (error + unit) \<times> charset" where
  "setchars_all self [] = (Inr (), self)"
| "setchars_all self (m # maps) =
     (case setchars self m of
        (Inl e, self') \<Rightarrow> (Inl e, self')
      | (Inr _, self') \<Rightarrow> setchars_all self' maps)"

definition Charset_init :: "pystr \<Rightarrow> (int \<times> pyobj) list list \<Rightarrow> error + charset" where
  "Charset_init descr maps =
     (case setchars_all \<lparr>description = descr, nu = [], un = []\<rparr> maps of
        (Inl e, _) \<Rightarrow> Inl e
      | (Inr _, self) \<Rightarrow>
          (let nlen = length (nu self); ulen = length (un self)
           in if \<not> (nlen = ulen \<and> ulen = 0x100)
              then Inl (RuntimeError, Incomplete nlen ulen)
              else Inr self))"

definition Charset_trans :: "charset \<Rightarrow> int \<Rightarrow> error + pyobj" where
  "Charset_trans self n =
     (case ncheck n of
        Inl e \<Rightarrow> Inl e
      | Inr _ \<Rightarrow> getitem (nu self) n PyInt)"

definition Charset_native :: "charset \<Rightarrow> pyobj \<Rightarrow> error + int list" where
  "Charset_native self u =
     (case ucheck u of
        Inl e \<Rightarrow> Inl e
      | Inr _ \<Rightarrow>
          (case getitem (un self) u id of
             Inl e \<Rightarrow> Inl e
           | Inr k \<Rightarrow> bytes [k]))"

text \<open>The composite \<^verbatim>\<open>cs.native(cs.trans(n))\<close>; an exception of the inner call propagates.\<close>

definition native_of_trans :: "charset \<Rightarrow> int \<Rightarrow> error + int list" where
  "native_of_trans self n =
     (case Charset_trans self n of Inl e \<Rightarrow> Inl e | Inr u \<Rightarrow> Charset_native self u)"

section \<open>class Unimplemented\<close>

record unimplemented =
  name :: pystr
  description_u :: pystr

definition Unimplemented_init :: "pystr \<Rightarrow> pystr \<Rightarrow> unimplemented" where
  "Unimplemented_init nm descr =
     \<lparr>name = nm, description_u = descr @ lit '' (not yet implemented)''\<rparr>"

definition unimpl :: "unimplemented \<Rightarrow> error + pyobj" where
  "unimpl self =
     Inl (NotImplementedError,
          Message (lit ''charset '' @ lit [CHR 0x27] @ name self @ lit [CHR 0x27] @ lit '' ''))"

definition Unimplemented_trans :: "unimplemented \<Rightarrow> 'a \<Rightarrow> error + pyobj" where
  "Unimplemented_trans self n = (case unimpl self of Inl e \<Rightarrow> Inl e | Inr _ \<Rightarrow> Inr PyNone)"

definition Unimplemented_native :: "unimplemented \<Rightarrow> 'a \<Rightarrow> error + pyobj" where
  "Unimplemented_native self u = (case unimpl self of Inl e \<Rightarrow> Inl e | Inr _ \<Rightarrow> Inr PyNone)"

section \<open>class UTCharset\<close>

definition UTCharset_trans :: "int \<Rightarrow> error + pyobj" where
  "UTCharset_trans n =
     (if n \<ge> 0 \<and> n < 0x100 then py_chr (0xF000 + n)
      else Inl (AssertionError, Asserted (PyInt n)))"

text \<open>
  \<^verbatim>\<open>len(u)\<close> raises \<^verbatim>\<open>TypeError\<close> for a value without a length; \<^verbatim>\<open>chr(0xF000)\<close> and
  \<^verbatim>\<open>chr(0xF100)\<close> are the one-character strings of these code points.
\<close>

definition UTCharset_native :: "pyobj \<Rightarrow> error + int" where
  "UTCharset_native u =
     (case u of
        PyStr s \<Rightarrow>
          if length s = 1 \<and> str_ge s [0xF000] \<and> str_lt s [0xF100]
          then (case py_ord u of Inl e \<Rightarrow> Inl e | Inr k \<Rightarrow> Inr (k - 0xF000))
          else Inl (AssertionError, Asserted u)
      | _ \<Rightarrow> Inl (TypeError, NoLen u))"

section \<open>Utility function chrsub\<close>

text \<open>
  The loop of \<^verbatim>\<open>chrsub\<close> over \<^verbatim>\<open>codechars\<close>, with its two variables \<^verbatim>\<open>replaced\<close> and
  \<^verbatim>\<open>ret\<close> as accumulators.
\<close>

fun chrsub_loop ::
  "(int \<times> pyobj) list \<Rightarrow> int \<times> pyobj \<Rightarrow> bool \<times> (int \<times> pyobj) list
     \<Rightarrow> bool \<times> (int \<times> pyobj) list" where
  "chrsub_loop [] replacement (replaced, ret) = (replaced, ret)"
| "chrsub_loop (mapping # codechars) replacement (replaced, ret) =
     (if fst mapping = fst replacement
      then chrsub_loop codechars replacement (True, ret @ [replacement])
      else chrsub_loop codechars replacement (replaced, ret @ [mapping]))"

definition chrsub :: "(int \<times> pyobj) list \<Rightarrow> int \<times> pyobj \<Rightarrow> error + (int \<times> pyobj) list" where
  "chrsub codechars replacement =
     (case chrsub_loop codechars replacement (False, []) of
        (replaced, ret) \<Rightarrow>
          if \<not> replaced then Inl (LookupError, NotReplaced replacement) else Inr ret)"

section \<open>Notions used to state the properties\<close>

text \<open>
  What one iteration of the loop of \<^verbatim>\<open>setchars\<close> does to a pair: the two checks, in the
  source's order, and the two dictionary assignments.
\<close>

definition check_pair :: "int \<times> pyobj \<Rightarrow> error + unit" where
  "check_pair p = (case ncheck (fst p) of Inl e \<Rightarrow> Inl e | Inr _ \<Rightarrow> ucheck (snd p))"

definition valid_pair :: "int \<times> pyobj \<Rightarrow> bool" where
  "valid_pair p = (check_pair p = Inr ())"

definition insert_pair :: "int \<times> pyobj \<Rightarrow> charset \<Rightarrow> charset" where
  "insert_pair p self =
     self\<lparr>nu := AList.update (fst p) (snd p) (nu self),
          un := AList.update (snd p) (fst p) (un self)\<rparr>"

definition empty_charset :: "pystr \<Rightarrow> charset" where
  "empty_charset descr = \<lparr>description = descr, nu = [], un = []\<rparr>"

text \<open>
  Two conditions on the pairs handed to the constructor: no character is given to two
  different native codes, and no native code is given two different characters.
\<close>

definition one_code_per_char :: "(int \<times> pyobj) list \<Rightarrow> bool" where
  "one_code_per_char ps = (\<forall>p \<in> set ps. \<forall>q \<in> set ps. snd p = snd q \<longrightarrow> fst p = fst q)"

definition one_char_per_code :: "(int \<times> pyobj) list \<Rightarrow> bool" where
  "one_char_per_code ps = (\<forall>p \<in> set ps. \<forall>q \<in> set ps. fst p = fst q \<longrightarrow> snd p = snd q)"

text \<open>
  Two conditions on the tables of an object: no character occurs twice among the values
  of the forward dictionary and no native code twice among the values of the reverse one;
  and every key of the reverse dictionary is a value of the forward one, that is, no
  reverse entry is left over from a native code that has been given another character
  since.
\<close>

definition tables_one_to_one :: "charset \<Rightarrow> bool" where
  "tables_one_to_one cs = (distinct (map snd (nu cs)) \<and> distinct (map snd (un cs)))"

definition no_stale_reverse :: "charset \<Rightarrow> bool" where
  "no_stale_reverse cs = (\<forall>u \<in> fst ` set (un cs). u \<in> snd ` set (nu cs))"

text \<open>The number of positions at which two sequences differ.\<close>

definition changed_count :: "'a list \<Rightarrow> 'a list \<Rightarrow> nat" where
  "changed_count xs ys = length (filter (\<lambda>xy. fst xy \<noteq> snd xy) (zip xs ys))"

text \<open>The composites \<^verbatim>\<open>native(trans(n))\<close> and \<^verbatim>\<open>trans(native(u))\<close> of \<^verbatim>\<open>UTCharset\<close>.\<close>

definition UTCharset_native_of_trans :: "int \<Rightarrow> error + int" where
  "UTCharset_native_of_trans n =
     (case UTCharset_trans n of Inl e \<Rightarrow> Inl e | Inr u \<Rightarrow> UTCharset_native u)"

definition UTCharset_trans_of_native :: "pyobj \<Rightarrow> error + pyobj" where
  "UTCharset_trans_of_native u =
     (case UTCharset_native u of Inl e \<Rightarrow> Inl e | Inr n \<Rightarrow> UTCharset_trans n)"

subsection \<open>Concrete constructor arguments\<close>

text \<open>
  A complete table in the private use area, code \<open>k\<close> paired with U+F000+\<open>k\<close>, and
  three argument lists that start with a fragment reusing a code or a character and
  continue with the codes 2 to 255 of that table; each with the object that the
  constructor returns for it.
\<close>

definition ut_pair :: "nat \<Rightarrow> int \<times> pyobj" where
  "ut_pair k = (int k, PyStr [0xF000 + k])"

definition ut_pairs :: "nat \<Rightarrow> nat \<Rightarrow> (int \<times> pyobj) list" where
  "ut_pairs a b = map ut_pair [a..<b]"

definition ut_table :: charset where
  "ut_table =
     \<lparr>description = [], nu = ut_pairs 0 256, un = map prod.swap (ut_pairs 0 256)\<rparr>"

definition shared_char_maps :: "(int \<times> pyobj) list list" where
  "shared_char_maps =
     [[(0, PyStr [0x41]), (1, PyStr [0x41]), (1, PyStr [0x42])], ut_pairs 2 256]"

definition shared_char_table :: charset where
  "shared_char_table =
     \<lparr>description = [],
      nu = [(0, PyStr [0x41]), (1, PyStr [0x42])] @ ut_pairs 2 256,
      un = [(PyStr [0x41], 1), (PyStr [0x42], 1)] @ map prod.swap (ut_pairs 2 256)\<rparr>"

definition stale_reverse_maps :: "(int \<times> pyobj) list list" where
  "stale_reverse_maps =
     [[(0, PyStr [0x41]), (0, PyStr [0x42]), (1, PyStr [0x42])], ut_pairs 2 256]"

definition stale_reverse_table :: charset where
  "stale_reverse_table =
     \<lparr>description = [],
      nu = [(0, PyStr [0x42]), (1, PyStr [0x42])] @ ut_pairs 2 256,
      un = [(PyStr [0x41], 0), (PyStr [0x42], 1)] @ map prod.swap (ut_pairs 2 256)\<rparr>"

definition swapped_maps :: "(int \<times> pyobj) list list" where
  "swapped_maps =
     [[(0, PyStr [0x41]), (1, PyStr [0x41]), (0, PyStr [0x42])], ut_pairs 2 256]"

definition swapped_table :: charset where
  "swapped_table =
     \<lparr>description = [],
      nu = [(0, PyStr [0x42]), (1, PyStr [0x41])] @ ut_pairs 2 256,
      un = [(PyStr [0x41], 1), (PyStr [0x42], 0)] @ map prod.swap (ut_pairs 2 256)\<rparr>"

section \<open>The loop of setchars and the two tables\<close>

lemma valid_pair_iff:
  "valid_pair (n, u) \<longleftrightarrow> 0 \<le> n \<and> n \<le> 255 \<and> (\<exists>c. u = PyStr [c])"
  by (auto simp: valid_pair_def check_pair_def ncheck_def ucheck_def length_Suc_conv
      split: pyobj.splits)

lemma setchars_Cons:
  "setchars self (p # m) =
     (case check_pair p of
        Inl e \<Rightarrow> (Inl e, self)
      | Inr _ \<Rightarrow> setchars (insert_pair p self) m)"
  by (cases p) (simp add: check_pair_def insert_pair_def split: sum.splits)

lemma setchars_valid:
  "list_all valid_pair m \<Longrightarrow> setchars self m = (Inr (), fold insert_pair m self)"
  by (induction m arbitrary: self) (simp_all add: setchars_Cons valid_pair_def)

lemma setchars_append:
  "setchars self (a @ b) =
     (case setchars self a of (Inl e, s) \<Rightarrow> (Inl e, s) | (Inr _, s) \<Rightarrow> setchars s b)"
  by (induction a arbitrary: self) (simp_all add: setchars_Cons split: sum.splits)

lemma setchars_all_concat: "setchars_all self maps = setchars self (concat maps)"
  by (induction maps arbitrary: self) (auto simp: setchars_append split: prod.splits sum.splits)

lemma setchars_Inr_valid:
  "fst (setchars self m) = Inr () \<Longrightarrow> list_all valid_pair m"
  by (induction m arbitrary: self)
     (auto simp: setchars_Cons valid_pair_def split: sum.splits)

lemma setchars_first_invalid:
  assumes "i < length m" and "list_all valid_pair (take i m)" and "check_pair (m ! i) = Inl e"
  shows "setchars self m = (Inl e, fold insert_pair (take i m) self)"
proof -
  have m: "m = take i m @ (m ! i) # drop (Suc i) m"
    using assms(1) by (simp add: id_take_nth_drop)
  have "setchars self m = setchars self (take i m @ (m ! i) # drop (Suc i) m)"
    using m by simp
  also have "\<dots> = setchars (fold insert_pair (take i m) self) ((m ! i) # drop (Suc i) m)"
    by (simp add: setchars_append setchars_valid [OF assms(2)])
  also have "\<dots> = (Inl e, fold insert_pair (take i m) self)"
    by (simp add: setchars_Cons assms(3))
  finally show ?thesis .
qed

lemma nu_insert_pair: "nu (insert_pair p self) = AList.update (fst p) (snd p) (nu self)"
  by (simp add: insert_pair_def)

lemma un_insert_pair: "un (insert_pair p self) = AList.update (snd p) (fst p) (un self)"
  by (simp add: insert_pair_def)

lemma nu_fold_map_of:
  "map_of (nu (fold insert_pair ps self)) = map_of (rev ps @ nu self)"
  by (induction ps arbitrary: self) (simp_all add: nu_insert_pair update_conv')

lemma un_fold_map_of:
  "map_of (un (fold insert_pair ps self)) = map_of (map prod.swap (rev ps) @ un self)"
  by (induction ps arbitrary: self) (simp_all add: un_insert_pair update_conv')

lemma nu_fold_distinct:
  "distinct (map fst (nu self)) \<Longrightarrow> distinct (map fst (nu (fold insert_pair ps self)))"
  by (induction ps arbitrary: self) (simp_all add: nu_insert_pair distinct_update)

lemma un_fold_distinct:
  "distinct (map fst (un self)) \<Longrightarrow> distinct (map fst (un (fold insert_pair ps self)))"
  by (induction ps arbitrary: self) (simp_all add: un_insert_pair distinct_update)

lemma nu_fold_keys:
  "fst ` set (nu (fold insert_pair ps self)) = fst ` set ps \<union> fst ` set (nu self)"
  by (induction ps arbitrary: self) (auto simp: nu_insert_pair dom_update)

lemma un_fold_keys:
  "fst ` set (un (fold insert_pair ps self)) = snd ` set ps \<union> fst ` set (un self)"
  by (induction ps arbitrary: self) (auto simp: un_insert_pair dom_update)

lemma nu_fold_length:
  "length (nu (fold insert_pair ps (empty_charset d))) = card (fst ` set ps)"
proof -
  let ?l = "nu (fold insert_pair ps (empty_charset d))"
  have "distinct (map fst ?l)"
    by (rule nu_fold_distinct) (simp add: empty_charset_def)
  then have "card (set (map fst ?l)) = length (map fst ?l)"
    by (rule distinct_card)
  moreover have "set (map fst ?l) = fst ` set ps"
    using nu_fold_keys [of ps "empty_charset d"] by (simp add: empty_charset_def)
  ultimately show ?thesis by simp
qed

lemma un_fold_length:
  "length (un (fold insert_pair ps (empty_charset d))) = card (snd ` set ps)"
proof -
  let ?l = "un (fold insert_pair ps (empty_charset d))"
  have "distinct (map fst ?l)"
    by (rule un_fold_distinct) (simp add: empty_charset_def)
  then have "card (set (map fst ?l)) = length (map fst ?l)"
    by (rule distinct_card)
  moreover have "set (map fst ?l) = snd ` set ps"
    using un_fold_keys [of ps "empty_charset d"] by (simp add: empty_charset_def)
  ultimately show ?thesis by simp
qed

lemma Charset_init_concat:
  "Charset_init d maps =
     (case setchars (empty_charset d) (concat maps) of
        (Inl e, _) \<Rightarrow> Inl e
      | (Inr _, self) \<Rightarrow>
          if length (nu self) = 256 \<and> length (un self) = 256 then Inr self
          else Inl (RuntimeError, Incomplete (length (nu self)) (length (un self))))"
  by (auto simp: Charset_init_def empty_charset_def setchars_all_concat Let_def
      split: prod.splits sum.splits)

lemma Charset_init_valid:
  assumes "list_all valid_pair (concat maps)"
  shows "Charset_init d maps =
     (if card (fst ` set (concat maps)) = 256 \<and> card (snd ` set (concat maps)) = 256
      then Inr (fold insert_pair (concat maps) (empty_charset d))
      else Inl (RuntimeError,
                Incomplete (card (fst ` set (concat maps))) (card (snd ` set (concat maps)))))"
  by (simp add: Charset_init_concat setchars_valid [OF assms] nu_fold_length un_fold_length)

lemma Charset_init_Inr:
  assumes "Charset_init d maps = Inr cs"
  shows "list_all valid_pair (concat maps)"
    and "cs = fold insert_pair (concat maps) (empty_charset d)"
    and "card (fst ` set (concat maps)) = 256"
    and "card (snd ` set (concat maps)) = 256"
proof -
  have "fst (setchars (empty_charset d) (concat maps)) = Inr ()"
    using assms by (auto simp: Charset_init_concat split: prod.splits sum.splits)
  then show v: "list_all valid_pair (concat maps)"
    by (rule setchars_Inr_valid)
  show "cs = fold insert_pair (concat maps) (empty_charset d)"
    using assms Charset_init_valid [OF v, of d] by (simp split: if_splits)
  show "card (fst ` set (concat maps)) = 256"
    using assms Charset_init_valid [OF v, of d] by (simp split: if_splits)
  show "card (snd ` set (concat maps)) = 256"
    using assms Charset_init_valid [OF v, of d] by (simp split: if_splits)
qed

lemma nu_lookup_in_pairs:
  "map_of (nu (fold insert_pair ps (empty_charset d))) n = Some u \<Longrightarrow> (n, u) \<in> set ps"
  by (auto simp: nu_fold_map_of empty_charset_def dest: map_of_SomeD)

lemma un_lookup_in_pairs:
  "map_of (un (fold insert_pair ps (empty_charset d))) u = Some n \<Longrightarrow> (n, u) \<in> set ps"
  by (auto simp: un_fold_map_of empty_charset_def dest!: map_of_SomeD)

lemma un_lookup_defined:
  assumes "(n, u) \<in> set ps"
  shows "\<exists>k. map_of (un (fold insert_pair ps (empty_charset d))) u = Some k"
proof -
  have "(u, n) \<in> set (map prod.swap (rev ps))"
    using assms by force
  then show ?thesis
    by (simp add: un_fold_map_of empty_charset_def weak_map_of_SomeI)
qed

lemma nu_lookup_defined:
  assumes "(n, u) \<in> set ps"
  shows "\<exists>v. map_of (nu (fold insert_pair ps (empty_charset d))) n = Some v"
proof -
  have "(n, u) \<in> set (rev ps)"
    using assms by simp
  then show ?thesis
    by (simp add: nu_fold_map_of empty_charset_def weak_map_of_SomeI)
qed

lemma tables_inverse:
  assumes f: "one_code_per_char ps"
    and nu: "map_of (nu (fold insert_pair ps (empty_charset d))) n = Some u"
  shows "map_of (un (fold insert_pair ps (empty_charset d))) u = Some n"
proof -
  have in_ps: "(n, u) \<in> set ps"
    using nu by (rule nu_lookup_in_pairs)
  then obtain k where k: "map_of (un (fold insert_pair ps (empty_charset d))) u = Some k"
    using un_lookup_defined by blast
  then have "(k, u) \<in> set ps"
    by (rule un_lookup_in_pairs)
  with in_ps f have "k = n"
    unfolding one_code_per_char_def by fastforce
  with k show ?thesis by simp
qed

lemma codes_full:
  assumes v: "list_all valid_pair ps" and c: "card (fst ` set ps) = 256"
  shows "fst ` set ps = {0..255}"
proof -
  have sub: "fst ` set ps \<subseteq> {0..255}"
    using v by (auto simp: list_all_iff valid_pair_iff)
  have "card {0..255::int} = 256" by simp
  with c have "card (fst ` set ps) = card {0..255::int}" by simp
  with sub show ?thesis
    by (intro card_subset_eq) simp_all
qed

lemma trans_defined:
  assumes "Charset_init d maps = Inr cs" and "0 \<le> n" and "n \<le> 255"
  shows "\<exists>c. (n, PyStr [c]) \<in> set (concat maps) \<and> map_of (nu cs) n = Some (PyStr [c])
    \<and> Charset_trans cs n = Inr (PyStr [c])"
proof -
  note I = Charset_init_Inr [OF assms(1)]
  have "n \<in> fst ` set (concat maps)"
    using codes_full [OF I(1) I(3)] assms(2,3) by simp
  then obtain u0 where "(n, u0) \<in> set (concat maps)" by force
  then obtain u where u: "map_of (nu cs) n = Some u"
    unfolding I(2) using nu_lookup_defined by blast
  then have in_ps: "(n, u) \<in> set (concat maps)"
    unfolding I(2) by (rule nu_lookup_in_pairs)
  with I(1) have "valid_pair (n, u)"
    unfolding list_all_iff by blast
  then obtain c where c: "u = PyStr [c]"
    by (auto simp: valid_pair_iff)
  have "Charset_trans cs n = Inr u"
    using u assms(2,3) by (simp add: Charset_trans_def ncheck_def getitem_def)
  with c u in_ps show ?thesis by blast
qed

lemma one_char_imp_one_code:
  assumes f: "one_char_per_code ps" and c: "card (fst ` set ps) = card (snd ` set ps)"
  shows "one_code_per_char ps"
proof -
  define F where "F n = the (map_of ps n)" for n
  have F: "F n = u" if "(n, u) \<in> set ps" for n u
  proof -
    from that obtain v where v: "map_of ps n = Some v"
      using weak_map_of_SomeI by fastforce
    then have "(n, v) \<in> set ps" by (rule map_of_SomeD)
    with that f have "v = u"
      unfolding one_char_per_code_def by fastforce
    with v show ?thesis by (simp add: F_def)
  qed
  have "snd ` set ps = F ` fst ` set ps"
    using F by (force simp: image_iff)
  with c have "card (F ` fst ` set ps) = card (fst ` set ps)" by simp
  then have inj: "inj_on F (fst ` set ps)"
    by (intro eq_card_imp_inj_on) simp_all
  show ?thesis
    unfolding one_code_per_char_def
  proof (intro ballI impI)
    fix p q assume p: "p \<in> set ps" and q: "q \<in> set ps" and e: "snd p = snd q"
    have "F (fst p) = snd p" using p F [of "fst p" "snd p"] by simp
    moreover have "F (fst q) = snd q" using q F [of "fst q" "snd q"] by simp
    ultimately have "F (fst p) = F (fst q)" using e by simp
    with inj p q show "fst p = fst q"
      by (auto dest: inj_onD)
  qed
qed

lemma native_trans_inverse:
  assumes init: "Charset_init d maps = Inr cs"
    and f: "one_code_per_char (concat maps)"
    and n: "0 \<le> n" "n \<le> 255"
  shows "native_of_trans cs n = Inr [n]"
proof -
  note I = Charset_init_Inr [OF init]
  obtain c where c: "map_of (nu cs) n = Some (PyStr [c])" "Charset_trans cs n = Inr (PyStr [c])"
    using trans_defined [OF init n] by blast
  have "map_of (un cs) (PyStr [c]) = Some n"
    using tables_inverse [OF f] c(1) unfolding I(2) by blast
  then show ?thesis
    using c(2) n
    by (simp add: native_of_trans_def Charset_native_def ucheck_def getitem_def bytes_def)
qed

lemma check_pair_class: "check_pair p = Inl e \<Longrightarrow> fst e = ValueError"
  by (auto simp: check_pair_def ncheck_def ucheck_def split: sum.splits if_splits pyobj.splits)

lemma no_rebinding:
  assumes init: "Charset_init d maps = Inr cs"
    and f: "one_code_per_char (concat maps) \<or> one_char_per_code (concat maps)"
  shows "one_code_per_char (concat maps)"
proof -
  note I = Charset_init_Inr [OF init]
  have "card (fst ` set (concat maps)) = card (snd ` set (concat maps))"
    using I(3) I(4) by simp
  then show ?thesis
    using f one_char_imp_one_code by blast
qed

section \<open>The loop of chrsub\<close>

lemma chrsub_loop_eq:
  "chrsub_loop cc r (b, acc) =
     (b \<or> (\<exists>m \<in> set cc. fst m = fst r), acc @ map (\<lambda>m. if fst m = fst r then r else m) cc)"
  by (induction cc arbitrary: b acc) auto

lemma chrsub_eq:
  "chrsub cc r =
     (if \<exists>m \<in> set cc. fst m = fst r then Inr (map (\<lambda>m. if fst m = fst r then r else m) cc)
      else Inl (LookupError, NotReplaced r))"
  by (simp add: chrsub_def chrsub_loop_eq)

lemma changed_count_map:
  "changed_count cc (map (\<lambda>m. if fst m = fst r then r else m) cc)
     \<le> length (filter (\<lambda>m. fst m = fst r) cc)"
  by (induction cc) (auto simp: changed_count_def)

section \<open>Last writes: when the two tables are inverse to each other\<close>

lemma first_index_le:
  assumes "i < length xs" and "\<not> P (xs ! i)"
  shows "length (takeWhile P xs) \<le> i"
proof (rule ccontr)
  assume "\<not> length (takeWhile P xs) \<le> i"
  then have less: "i < length (takeWhile P xs)" by simp
  then have "takeWhile P xs ! i \<in> set (takeWhile P xs)" by (rule nth_mem)
  then have "P (takeWhile P xs ! i)" by (auto dest: set_takeWhileD)
  moreover have "takeWhile P xs ! i = xs ! i" using less by (rule takeWhile_nth)
  ultimately show False using assms(2) by simp
qed

lemma first_index_less:
  "k \<in> f ` set xs \<Longrightarrow> length (takeWhile (\<lambda>p. f p \<noteq> k) xs) < length xs"
  by (induction xs) auto

lemma first_index_key:
  assumes "k \<in> f ` set xs"
  shows "f (xs ! length (takeWhile (\<lambda>p. f p \<noteq> k) xs)) = k"
  using nth_length_takeWhile [OF first_index_less [OF assms]] by simp

lemma map_of_first:
  "k \<in> fst ` set xs \<Longrightarrow>
     map_of xs k = Some (snd (xs ! length (takeWhile (\<lambda>p. fst p \<noteq> k) xs)))"
  by (induction xs) auto

lemma map_of_swap_first:
  "v \<in> snd ` set xs \<Longrightarrow>
     map_of (map prod.swap xs) v = Some (fst (xs ! length (takeWhile (\<lambda>p. snd p \<noteq> v) xs)))"
  by (induction xs) auto

lemma last_writes_inverse:
  fixes qs :: "('a \<times> 'b) list"
  assumes injf: "inj_on (map_of qs) (fst ` set qs)"
    and injg: "inj_on (map_of (map prod.swap qs)) (snd ` set qs)"
    and k: "k \<in> fst ` set qs"
  shows "\<exists>v. map_of qs k = Some v \<and> map_of (map prod.swap qs) v = Some k"
proof -
  define A where "A = fst ` set qs"
  define t where "t n = length (takeWhile (\<lambda>p. fst p \<noteq> n) qs)" for n
  define s where "s v = length (takeWhile (\<lambda>p. snd p \<noteq> v) qs)" for v
  define F where "F n = snd (qs ! t n)" for n
  define G where "G v = fst (qs ! s v)" for v
  define h where "h n = G (F n)" for n
  have t_less: "t n < length qs" if "n \<in> A" for n
    using that first_index_less [of n fst qs] by (simp add: A_def t_def)
  have t_key: "fst (qs ! t n) = n" if "n \<in> A" for n
    using that first_index_key [of n fst qs] by (simp add: A_def t_def)
  have f_eq: "map_of qs n = Some (F n)" if "n \<in> A" for n
    using that map_of_first [of n qs] by (simp add: A_def t_def F_def)
  have F_in: "F n \<in> snd ` set qs" if "n \<in> A" for n
    using t_less [OF that] by (auto simp: F_def intro!: image_eqI [where x = "qs ! t n"])
  have s_less: "s v < length qs" if "v \<in> snd ` set qs" for v
    using that first_index_less [of v snd qs] by (simp add: s_def)
  have s_key: "snd (qs ! s v) = v" if "v \<in> snd ` set qs" for v
    using that first_index_key [of v snd qs] by (simp add: s_def)
  have g_eq: "map_of (map prod.swap qs) v = Some (G v)" if "v \<in> snd ` set qs" for v
    using that map_of_swap_first [of v qs] by (simp add: s_def G_def)
  have G_in: "G v \<in> A" if "v \<in> snd ` set qs" for v
    using s_less [OF that] by (auto simp: G_def A_def intro!: image_eqI [where x = "qs ! s v"])
  have h_in: "h n \<in> A" if "n \<in> A" for n
    using that by (simp add: h_def G_in F_in)
  have s_le: "s (F n) \<le> t n" if "n \<in> A" for n
    unfolding s_def
  proof (rule first_index_le)
    show "t n < length qs" using that by (rule t_less)
    show "\<not> snd (qs ! t n) \<noteq> F n" by (simp add: F_def)
  qed
  have t_le: "t (h n) \<le> s (F n)" if "n \<in> A" for n
    unfolding t_def
  proof (rule first_index_le)
    show "s (F n) < length qs" using that by (simp add: s_less F_in)
    show "\<not> fst (qs ! s (F n)) \<noteq> h n" by (simp add: h_def G_def)
  qed
  have le: "t (h n) \<le> t n" if "n \<in> A" for n
    using s_le [OF that] t_le [OF that] by simp
  have inj_h: "inj_on h A"
  proof (rule inj_onI)
    fix a b assume a: "a \<in> A" and b: "b \<in> A" and e: "h a = h b"
    have "map_of (map prod.swap qs) (F a) = map_of (map prod.swap qs) (F b)"
      using e a b by (simp add: g_eq F_in h_def)
    then have "F a = F b"
      using injg a b by (auto dest: inj_onD simp: F_in)
    then have "map_of qs a = map_of qs b"
      using a b by (simp add: f_eq)
    then show "a = b"
      using injf a b by (auto dest: inj_onD simp: A_def)
  qed
  have fin: "finite A" by (simp add: A_def)
  have "h ` A \<subseteq> A" using h_in by blast
  with fin inj_h have img: "h ` A = A" by (intro endo_inj_surj)
  have "sum t A = sum t (h ` A)" using img by simp
  also have "\<dots> = sum (t \<circ> h) A" using inj_h by (rule sum.reindex)
  finally have sums: "sum (\<lambda>n. t (h n)) A = sum t A" by (simp add: comp_def)
  have eq: "t (h n) = t n" if "n \<in> A" for n
  proof (rule ccontr)
    assume "t (h n) \<noteq> t n"
    with le [OF that] have "t (h n) < t n" by simp
    with that have "\<exists>a \<in> A. t (h a) < t a" by blast
    moreover have "\<forall>a \<in> A. t (h a) \<le> t a" using le by blast
    ultimately have "sum (\<lambda>n. t (h n)) A < sum t A"
      using fin by (intro sum_strict_mono_ex1)
    with sums show False by simp
  qed
  have fixed: "h n = n" if "n \<in> A" for n
  proof -
    have "h n = fst (qs ! t (h n))" using h_in [OF that] by (simp add: t_key)
    also have "\<dots> = fst (qs ! t n)" using that by (simp add: eq)
    also have "\<dots> = n" using that by (rule t_key)
    finally show ?thesis .
  qed
  have kA: "k \<in> A" using k by (simp add: A_def)
  have "map_of qs k = Some (F k)" using kA by (rule f_eq)
  moreover have "map_of (map prod.swap qs) (F k) = Some k"
    using g_eq [OF F_in [OF kA]] fixed [OF kA] by (simp add: h_def)
  ultimately show ?thesis by blast
qed

lemma map_of_inj_on:
  assumes "distinct (map snd al)"
  shows "inj_on (map_of al) (fst ` set al)"
proof (rule inj_onI)
  fix a b assume a: "a \<in> fst ` set al" and b: "b \<in> fst ` set al"
    and e: "map_of al a = map_of al b"
  from a obtain v where v: "map_of al a = Some v"
    using weak_map_of_SomeI by fastforce
  then have "(a, v) \<in> set al" by (rule map_of_SomeD)
  moreover have "(b, v) \<in> set al" using v e by (auto dest: map_of_SomeD)
  moreover have "inj_on snd (set al)" using assms by (simp add: distinct_map)
  ultimately have "(a, v) = (b, v)"
    using inj_onD [of snd "set al" "(a, v)" "(b, v)"] by simp
  then show "a = b" by simp
qed

lemma native_of_trans_eq:
  assumes init: "Charset_init d maps = Inr cs" and n: "0 \<le> n" "n \<le> 255"
    and u: "map_of (nu cs) n = Some u" and k: "map_of (un cs) u = Some n"
  shows "native_of_trans cs n = Inr [n]"
proof -
  obtain c where c: "map_of (nu cs) n = Some (PyStr [c])" "Charset_trans cs n = Inr (PyStr [c])"
    using trans_defined [OF init n] by blast
  with u have "u = PyStr [c]" by simp
  with k c(2) n show ?thesis
    by (simp add: native_of_trans_def Charset_native_def ucheck_def getitem_def bytes_def)
qed

lemma one_to_one_inverse:
  assumes init: "Charset_init d maps = Inr cs"
    and o: "tables_one_to_one cs"
    and n: "0 \<le> n" "n \<le> 255"
  shows "native_of_trans cs n = Inr [n]"
proof -
  note I = Charset_init_Inr [OF init]
  let ?qs = "rev (concat maps)"
  have nu_eq: "map_of (nu cs) = map_of ?qs"
    unfolding I(2) by (simp add: nu_fold_map_of empty_charset_def)
  have un_eq: "map_of (un cs) = map_of (map prod.swap ?qs)"
    unfolding I(2) by (simp add: un_fold_map_of empty_charset_def)
  have nu_keys: "fst ` set (nu cs) = fst ` set ?qs"
    unfolding I(2) by (simp add: nu_fold_keys empty_charset_def)
  have un_keys: "fst ` set (un cs) = snd ` set ?qs"
    unfolding I(2) by (simp add: un_fold_keys empty_charset_def)
  have "inj_on (map_of (nu cs)) (fst ` set (nu cs))"
    using o by (intro map_of_inj_on) (simp add: tables_one_to_one_def)
  then have injf: "inj_on (map_of ?qs) (fst ` set ?qs)"
    by (simp only: nu_eq nu_keys)
  have "inj_on (map_of (un cs)) (fst ` set (un cs))"
    using o by (intro map_of_inj_on) (simp add: tables_one_to_one_def)
  then have injg: "inj_on (map_of (map prod.swap ?qs)) (snd ` set ?qs)"
    by (simp only: un_eq un_keys)
  have "n \<in> fst ` set (concat maps)"
    using codes_full [OF I(1) I(3)] n by simp
  then have "n \<in> fst ` set ?qs" by simp
  from last_writes_inverse [OF injf injg this]
  obtain v where "map_of (nu cs) n = Some v" and "map_of (un cs) v = Some n"
    unfolding nu_eq un_eq by blast
  with init n show ?thesis
    by (rule native_of_trans_eq)
qed

lemma roundtrip_cases:
  assumes init: "Charset_init d maps = Inr cs"
    and h: "tables_one_to_one cs \<or> one_code_per_char (concat maps)
      \<or> one_char_per_code (concat maps)"
    and n: "0 \<le> n" "n \<le> 255"
  shows "native_of_trans cs n = Inr [n]"
proof (cases "tables_one_to_one cs")
  case True
  with init show ?thesis using n by (rule one_to_one_inverse)
next
  case False
  with h have "one_code_per_char (concat maps) \<or> one_char_per_code (concat maps)"
    by simp
  with init have "one_code_per_char (concat maps)"
    by (rule no_rebinding)
  with init show ?thesis using n by (rule native_trans_inverse)
qed

lemma no_stale_inj:
  assumes init: "Charset_init d maps = Inr cs" and s: "no_stale_reverse cs"
  shows "inj_on (\<lambda>n. the (map_of (nu cs) n)) {0..255}"
proof -
  note I = Charset_init_Inr [OF init]
  let ?F = "\<lambda>n. the (map_of (nu cs) n)"
  have dist: "distinct (map fst (nu cs))"
    unfolding I(2) by (rule nu_fold_distinct) (simp add: empty_charset_def)
  have keys: "fst ` set (nu cs) = {0..255}"
    unfolding I(2) using codes_full [OF I(1) I(3)] by (simp add: nu_fold_keys empty_charset_def)
  have vals: "snd ` set (nu cs) \<subseteq> ?F ` {0..255}"
  proof
    fix v assume "v \<in> snd ` set (nu cs)"
    then obtain k where kv: "(k, v) \<in> set (nu cs)" by auto
    with dist have "map_of (nu cs) k = Some v" by simp
    moreover have "k \<in> {0..255}" using kv keys by force
    ultimately show "v \<in> ?F ` {0..255}" by force
  qed
  have "fst ` set (un cs) \<subseteq> snd ` set (nu cs)"
    using s by (auto simp: no_stale_reverse_def)
  with vals have sub: "fst ` set (un cs) \<subseteq> ?F ` {0..255}" by simp
  have "card (fst ` set (un cs)) = 256"
    unfolding I(2) using I(4) by (simp add: un_fold_keys empty_charset_def)
  with sub have "256 \<le> card (?F ` {0..255})"
    using card_mono [of "?F ` {0..255}" "fst ` set (un cs)"] by simp
  moreover have "card (?F ` {0..255}) \<le> card {0..255::int}"
    by (rule card_image_le) simp
  ultimately have "card (?F ` {0..255}) = card {0..255::int}" by simp
  then show ?thesis
    by (intro eq_card_imp_inj_on) simp_all
qed

lemma trans_distinct_cases:
  assumes init: "Charset_init d maps = Inr cs"
    and h: "no_stale_reverse cs \<or> one_char_per_code (concat maps)
      \<or> one_code_per_char (concat maps)"
    and n: "0 \<le> n1" "n1 \<le> 255" "0 \<le> n2" "n2 \<le> 255" and eq: "Charset_trans cs n1 = Charset_trans cs n2"
  shows "n1 = n2"
proof (cases "no_stale_reverse cs")
  case True
  obtain c1 where c1: "map_of (nu cs) n1 = Some (PyStr [c1])" "Charset_trans cs n1 = Inr (PyStr [c1])"
    using trans_defined [OF init n(1,2)] by blast
  obtain c2 where c2: "map_of (nu cs) n2 = Some (PyStr [c2])" "Charset_trans cs n2 = Inr (PyStr [c2])"
    using trans_defined [OF init n(3,4)] by blast
  have "the (map_of (nu cs) n1) = the (map_of (nu cs) n2)"
    using c1 c2 eq by simp
  with no_stale_inj [OF init True] n show ?thesis
    by (auto dest: inj_onD)
next
  case False
  with h have "one_code_per_char (concat maps) \<or> one_char_per_code (concat maps)"
    by blast
  with init have f: "one_code_per_char (concat maps)"
    by (rule no_rebinding)
  have "native_of_trans cs n1 = Inr [n1]"
    using init f n(1,2) by (rule native_trans_inverse)
  then have "Inr [n1] = native_of_trans cs n1"
    by (rule sym)
  also have "\<dots> = native_of_trans cs n2"
    unfolding native_of_trans_def eq ..
  also have "\<dots> = Inr [n2]"
    using init f n(3,4) by (rule native_trans_inverse)
  finally show ?thesis by simp
qed

section \<open>The dictionaries of the concrete tables\<close>

lemma ut_pairs_valid: "b \<le> 256 \<Longrightarrow> list_all valid_pair (ut_pairs a b)"
  by (auto simp: ut_pairs_def ut_pair_def list_all_iff valid_pair_iff)

lemma ut_pairs_codes: "fst ` set (ut_pairs a b) = {int a..<int b}"
proof -
  have "fst ` set (ut_pairs a b) = int ` {a..<b}"
    by (force simp: ut_pairs_def ut_pair_def image_iff)
  then show ?thesis by (simp add: image_int_atLeastLessThan)
qed

lemma ut_pairs_chars: "snd ` set (ut_pairs a b) = (\<lambda>k. PyStr [0xF000 + k]) ` {a..<b}"
  by (force simp: ut_pairs_def ut_pair_def image_iff)

lemma ut_pairs_char_mem:
  "PyStr [c] \<in> snd ` set (ut_pairs a b) \<longleftrightarrow> 0xF000 + a \<le> c \<and> c < 0xF000 + b"
proof -
  have "(\<exists>k \<in> {a..<b}. c = 0xF000 + k) \<longleftrightarrow> 0xF000 + a \<le> c \<and> c < 0xF000 + b"
  proof
    assume "\<exists>k \<in> {a..<b}. c = 0xF000 + k"
    then show "0xF000 + a \<le> c \<and> c < 0xF000 + b" by auto
  next
    assume r: "0xF000 + a \<le> c \<and> c < 0xF000 + b"
    then have "c - 0xF000 \<in> {a..<b}" and "c = 0xF000 + (c - 0xF000)" by auto
    then show "\<exists>k \<in> {a..<b}. c = 0xF000 + k" by blast
  qed
  then show ?thesis
    by (auto simp: ut_pairs_chars image_iff)
qed

lemma ut_pairs_one_code_per_char: "one_code_per_char (ut_pairs a b)"
  by (auto simp: one_code_per_char_def ut_pairs_def ut_pair_def)

lemma ut_pairs_one_char_per_code: "one_char_per_code (ut_pairs a b)"
  by (auto simp: one_char_per_code_def ut_pairs_def ut_pair_def)

lemma update_fresh: "k \<notin> fst ` set al \<Longrightarrow> AList.update k v al = al @ [(k, v)]"
  by (induction al) auto

lemma fold_insert_fresh:
  assumes "distinct (map fst xs)" and "distinct (map snd xs)"
    and "fst ` set xs \<inter> fst ` set (nu cs) = {}"
    and "snd ` set xs \<inter> fst ` set (un cs) = {}"
  shows "fold insert_pair xs cs = cs\<lparr>nu := nu cs @ xs, un := un cs @ map prod.swap xs\<rparr>"
  using assms
proof (induction xs arbitrary: cs)
  case Nil
  show ?case by simp
next
  case (Cons p xs)
  have n: "fst p \<notin> fst ` set (nu cs)" and u: "snd p \<notin> fst ` set (un cs)"
    using Cons.prems(3,4) by auto
  have step: "insert_pair p cs
      = cs\<lparr>nu := nu cs @ [p], un := un cs @ [prod.swap p]\<rparr>"
    using n u by (cases p) (simp add: insert_pair_def update_fresh)
  have "fold insert_pair xs (insert_pair p cs)
      = (insert_pair p cs)\<lparr>nu := nu (insert_pair p cs) @ xs,
          un := un (insert_pair p cs) @ map prod.swap xs\<rparr>"
  proof (rule Cons.IH)
    show "distinct (map fst xs)" and "distinct (map snd xs)"
      using Cons.prems(1,2) by simp_all
    show "fst ` set xs \<inter> fst ` set (nu (insert_pair p cs)) = {}"
      using Cons.prems(1,3) by (auto simp: step)
    show "snd ` set xs \<inter> fst ` set (un (insert_pair p cs)) = {}"
      using Cons.prems(2,4) by (auto simp: step)
  qed
  then show ?case
    by (simp add: step)
qed

lemma ut_pairs_distinct_codes: "distinct (map fst (ut_pairs a b))"
proof -
  have "map fst (ut_pairs a b) = map int [a..<b]"
    by (simp add: ut_pairs_def ut_pair_def comp_def)
  then show ?thesis
    by (simp add: distinct_map)
qed

lemma ut_pairs_distinct_chars: "distinct (map snd (ut_pairs a b))"
proof -
  have "map snd (ut_pairs a b) = map (\<lambda>k. PyStr [0xF000 + k]) [a..<b]"
    by (simp add: ut_pairs_def ut_pair_def comp_def)
  moreover have "inj_on (\<lambda>k::nat. PyStr [0xF000 + k]) (set [a..<b])"
    by (rule inj_onI) simp
  ultimately show ?thesis
    by (simp add: distinct_map)
qed

lemma fold_insert_ut_tail:
  assumes "fst ` set (nu cs) \<subseteq> {0..<int a}"
    and "\<forall>u \<in> fst ` set (un cs). \<exists>c < 0xF000. u = PyStr [c]"
  shows "fold insert_pair (ut_pairs a b) cs
      = cs\<lparr>nu := nu cs @ ut_pairs a b, un := un cs @ map prod.swap (ut_pairs a b)\<rparr>"
proof (rule fold_insert_fresh)
  show "distinct (map fst (ut_pairs a b))" by (rule ut_pairs_distinct_codes)
  show "distinct (map snd (ut_pairs a b))" by (rule ut_pairs_distinct_chars)
  show "fst ` set (ut_pairs a b) \<inter> fst ` set (nu cs) = {}"
    using assms(1) by (auto simp: ut_pairs_codes)
  show "snd ` set (ut_pairs a b) \<inter> fst ` set (un cs) = {}"
  proof (rule ccontr)
    assume "snd ` set (ut_pairs a b) \<inter> fst ` set (un cs) \<noteq> {}"
    then obtain u where u: "u \<in> snd ` set (ut_pairs a b)" and "u \<in> fst ` set (un cs)"
      by blast
    with assms(2) obtain c where "c < 0xF000" and "u = PyStr [c]"
      by blast
    with u show False
      by (simp add: ut_pairs_char_mem)
  qed
qed

lemma length_ut_pairs: "length (ut_pairs a b) = b - a"
  by (simp add: ut_pairs_def)

lemma init_head_ut_tail:
  assumes cat: "concat maps = h @ ut_pairs a 256"
    and v: "list_all valid_pair h"
    and f: "fold insert_pair h (empty_charset d) = \<lparr>description = d, nu = n0, un = u0\<rparr>"
    and codes: "fst ` set n0 \<subseteq> {0..<int a}"
    and chars: "\<forall>u \<in> fst ` set u0. \<exists>c < 0xF000. u = PyStr [c]"
    and len: "length n0 = a" "length u0 = a" "a \<le> 256"
  shows "Charset_init d maps
    = Inr \<lparr>description = d, nu = n0 @ ut_pairs a 256,
           un = u0 @ map prod.swap (ut_pairs a 256)\<rparr>"
proof -
  let ?cs = "\<lparr>description = d, nu = n0, un = u0\<rparr>"
  have "list_all valid_pair (concat maps)"
    using v ut_pairs_valid [of 256 a] by (simp add: cat)
  then have "setchars (empty_charset d) (concat maps)
      = (Inr (), fold insert_pair (ut_pairs a 256) ?cs)"
    by (simp add: setchars_valid cat f)
  also have "fold insert_pair (ut_pairs a 256) ?cs
      = ?cs\<lparr>nu := nu ?cs @ ut_pairs a 256, un := un ?cs @ map prod.swap (ut_pairs a 256)\<rparr>"
    using codes chars by (intro fold_insert_ut_tail) simp_all
  finally show ?thesis
    using len by (simp add: Charset_init_concat length_ut_pairs)
qed

lemma ut_table_init: "Charset_init [] [ut_pairs 0 256] = Inr ut_table"
  using init_head_ut_tail [of "[ut_pairs 0 256]" "[]" 0 "[]" "[]" "[]"]
  by (simp add: ut_table_def empty_charset_def)

lemma shared_char_init: "Charset_init [] shared_char_maps = Inr shared_char_table"
  unfolding shared_char_maps_def shared_char_table_def
  by (rule init_head_ut_tail)
     (auto simp: valid_pair_iff insert_pair_def empty_charset_def)

lemma stale_reverse_init: "Charset_init [] stale_reverse_maps = Inr stale_reverse_table"
  unfolding stale_reverse_maps_def stale_reverse_table_def
  by (rule init_head_ut_tail)
     (auto simp: valid_pair_iff insert_pair_def empty_charset_def)

lemma swapped_init: "Charset_init [] swapped_maps = Inr swapped_table"
  unfolding swapped_maps_def swapped_table_def
  by (rule init_head_ut_tail)
     (auto simp: valid_pair_iff insert_pair_def empty_charset_def)

lemma ut_nu_miss: "n < int a \<Longrightarrow> map_of (ut_pairs a b) n = None"
  by (simp add: map_of_eq_None_iff ut_pairs_codes)

lemma ut_un_miss:
  assumes "c < 0xF000"
  shows "map_of (map prod.swap (ut_pairs a b)) (PyStr [c]) = None"
proof -
  have "fst ` set (map prod.swap (ut_pairs a b)) = snd ` set (ut_pairs a b)"
    by force
  then show ?thesis
    using assms ut_pairs_char_mem [of c a b] by (simp add: map_of_eq_None_iff)
qed

lemma shared_char_roundtrip0: "native_of_trans shared_char_table 0 = Inr [1]"
  by (simp add: native_of_trans_def Charset_trans_def Charset_native_def ncheck_def ucheck_def
      getitem_def bytes_def shared_char_table_def map_add_def ut_nu_miss ut_un_miss)

lemma stale_reverse_trans:
  "Charset_trans stale_reverse_table 0 = Inr (PyStr [0x42])"
  "Charset_trans stale_reverse_table 1 = Inr (PyStr [0x42])"
  by (simp_all add: Charset_trans_def ncheck_def getitem_def stale_reverse_table_def
      map_add_def ut_nu_miss)

lemma snd_comp_swap: "snd \<circ> prod.swap = fst"
  by (rule ext) simp

lemma swapped_one_to_one: "tables_one_to_one swapped_table"
proof -
  have "PyStr [0x41] \<notin> snd ` set (ut_pairs 2 256)"
    and "PyStr [0x42] \<notin> snd ` set (ut_pairs 2 256)"
    by (simp_all add: ut_pairs_char_mem)
  then have "distinct (PyStr [0x42] # PyStr [0x41] # map snd (ut_pairs 2 256))"
    using ut_pairs_distinct_chars [of 2 256] by simp
  moreover have "(0::int) \<notin> fst ` set (ut_pairs 2 256)"
    and "(1::int) \<notin> fst ` set (ut_pairs 2 256)"
    by (simp_all add: ut_pairs_codes)
  then have "distinct ((1::int) # 0 # map fst (ut_pairs 2 256))"
    using ut_pairs_distinct_codes [of 2 256] by simp
  ultimately show ?thesis
    by (simp add: tables_one_to_one_def swapped_table_def snd_comp_swap)
qed

lemma shared_char_no_stale: "no_stale_reverse shared_char_table"
  by (auto simp: no_stale_reverse_def shared_char_table_def image_Un)

section \<open>Properties of Charset\<close>

text \<open>
  C3.  On a \<^verbatim>\<open>Charset\<close> whose constructor returned, \<^verbatim>\<open>trans(n)\<close> returns a one-character
  \<^verbatim>\<open>str\<close> for every \<open>n\<close> from 0 to 255; in particular the \<^verbatim>\<open>KeyError\<close> of the
  dictionary lookup is not raised.
\<close>

theorem trans_total:
  assumes "Charset_init descr maps = Inr cs" and "0 \<le> n" and "n \<le> 255"
  shows "(\<exists>c. Charset_trans cs n = Inr (PyStr [c]))
    \<and> (\<forall>x. Charset_trans cs n \<noteq> Inl (KeyError, x))"
proof -
  obtain c where "Charset_trans cs n = Inr (PyStr [c])"
    using trans_defined [OF assms] by blast
  then show ?thesis by simp
qed

theorem trans_total_witness:
  "Charset_init [] [ut_pairs 0 256] = Inr ut_table
   \<and> (\<exists>c. Charset_trans ut_table 0x41 = Inr (PyStr [c]))
   \<and> (\<forall>x. Charset_trans ut_table 0x41 \<noteq> Inl (KeyError, x))"
  using trans_total [OF ut_table_init, of "0x41"] ut_table_init by simp

text \<open>
  C7.  \<^verbatim>\<open>trans(-1)\<close> and \<^verbatim>\<open>trans(256)\<close>, and \<^verbatim>\<open>trans(n)\<close> for every \<open>n\<close> below 0 or
  above 255, raise the \<^verbatim>\<open>ValueError\<close> of the range check.  The object is arbitrary here,
  so the outcome does not depend on what its table holds for \<open>n\<close>: the lookup is not
  reached.
\<close>

theorem trans_range_check:
  "Charset_trans cs (- 1) = Inl (ValueError, BadNativeCode (- 1))
   \<and> Charset_trans cs 256 = Inl (ValueError, BadNativeCode 256)
   \<and> (n < 0 \<or> n > 255 \<longrightarrow> Charset_trans cs n = Inl (ValueError, BadNativeCode n))"
  by (simp add: Charset_trans_def ncheck_def)

theorem trans_range_check_witness:
  "((300::int) < 0 \<or> (300::int) > 255)
   \<and> Charset_trans \<lparr>description = [], nu = [(300, PyStr [0x41])], un = []\<rparr> 300
       = Inl (ValueError, BadNativeCode 300)
   \<and> Charset_trans ut_table (- 1) = Inl (ValueError, BadNativeCode (- 1))
   \<and> Charset_trans ut_table 256 = Inl (ValueError, BadNativeCode 256)"
  using trans_range_check [of "\<lparr>description = [], nu = [(300, PyStr [0x41])], un = []\<rparr>" 300]
    trans_range_check [of ut_table 300]
  by simp

text \<open>
  C9.  \<^verbatim>\<open>setchars\<close> is not atomic.  When the pairs before position \<open>i\<close> pass both checks
  and the pair at position \<open>i\<close> fails one with error \<open>e\<close>, the call raises \<open>e\<close> (a
  \<^verbatim>\<open>ValueError\<close>) and leaves the object in the state that a successful \<^verbatim>\<open>setchars\<close> of the
  first \<open>i\<close> pairs produces: these pairs are in both dictionaries, on top of what the
  dictionaries held before, and no later pair has been written.
\<close>

theorem setchars_not_atomic:
  assumes "i < length m" and "list_all valid_pair (take i m)" and "check_pair (m ! i) = Inl e"
  shows "setchars self m = (Inl e, fold insert_pair (take i m) self)
    \<and> setchars self (take i m) = (Inr (), fold insert_pair (take i m) self)
    \<and> fst e = ValueError
    \<and> map_of (nu (fold insert_pair (take i m) self))
        = map_of (nu self) ++ map_of (rev (take i m))
    \<and> map_of (un (fold insert_pair (take i m) self))
        = map_of (un self) ++ map_of (map prod.swap (rev (take i m)))"
proof (intro conjI)
  show "setchars self m = (Inl e, fold insert_pair (take i m) self)"
    using assms by (rule setchars_first_invalid)
  show "setchars self (take i m) = (Inr (), fold insert_pair (take i m) self)"
    using assms(2) by (rule setchars_valid)
  show "fst e = ValueError"
    using assms(3) by (rule check_pair_class)
  show "map_of (nu (fold insert_pair (take i m) self))
          = map_of (nu self) ++ map_of (rev (take i m))"
    by (simp add: nu_fold_map_of)
  show "map_of (un (fold insert_pair (take i m) self))
          = map_of (un self) ++ map_of (map prod.swap (rev (take i m)))"
    by (simp add: un_fold_map_of)
qed

theorem setchars_not_atomic_witness:
  "setchars (empty_charset []) [(0x41, PyStr [0x61]), (0x142, PyStr [0x62]), (0x43, PyStr [0x63])]
     = (Inl (ValueError, BadNativeCode 0x142),
        \<lparr>description = [], nu = [(0x41, PyStr [0x61])], un = [(PyStr [0x61], 0x41)]\<rparr>)
   \<and> setchars (empty_charset []) [(0x41, PyStr [0x61]), (0x42, PyStr [0x62, 0x63])]
     = (Inl (ValueError, NotLength1 (PyStr [0x62, 0x63])),
        \<lparr>description = [], nu = [(0x41, PyStr [0x61])], un = [(PyStr [0x61], 0x41)]\<rparr>)"
proof -
  let ?m1 = "[(0x41, PyStr [0x61]), (0x142, PyStr [0x62]), (0x43, PyStr [0x63])]"
  let ?m2 = "[(0x41, PyStr [0x61]), (0x42, PyStr [0x62, 0x63])]"
  have l1: "(1::nat) < length ?m1" and l2: "(1::nat) < length ?m2"
    by simp_all
  have v1: "list_all valid_pair (take 1 ?m1)" and v2: "list_all valid_pair (take 1 ?m2)"
    by (simp_all add: valid_pair_iff)
  have e1: "check_pair (?m1 ! 1) = Inl (ValueError, BadNativeCode 0x142)"
    by (simp add: check_pair_def ncheck_def)
  have e2: "check_pair (?m2 ! 1) = Inl (ValueError, NotLength1 (PyStr [0x62, 0x63]))"
    by (simp add: check_pair_def ncheck_def ucheck_def)
  show ?thesis
    using setchars_not_atomic [OF l1 v1 e1, of "empty_charset []"]
      setchars_not_atomic [OF l2 v2 e2, of "empty_charset []"]
    by (simp add: insert_pair_def empty_charset_def)
qed

text \<open>
  C1 as stated does not hold.  In \<open>shared_char_maps\<close> the character U+0041 is given to
  code 0 and then to code 1, and code 1 is then given U+0042.  Both dictionaries end with
  256 entries, so the constructor returns, but the reverse entry of U+0041 is 1 while the
  forward entry of 0 is U+0041: \<^verbatim>\<open>native(trans(0))\<close> is the byte 1, and \<^verbatim>\<open>bytes([0])\<close> is
  the byte 0.
\<close>

theorem roundtrip_counterexample:
  "Charset_init [] shared_char_maps = Inr shared_char_table
   \<and> native_of_trans shared_char_table 0 = Inr [1]
   \<and> bytes [0] = Inr [0]"
  by (simp add: shared_char_init shared_char_roundtrip0 bytes_def)

text \<open>
  C1, amended.  When the constructor returns, \<^verbatim>\<open>native(trans(n))\<close> equals \<^verbatim>\<open>bytes([n])\<close>,
  the single byte \<open>n\<close>, for every \<open>n\<close> from 0 to 255, provided one of these holds: the
  two final tables are one-to-one (no character is the value of two native codes in the
  forward dictionary and no native code the value of two characters in the reverse one);
  or the pairs never give one character to two different native codes; or the pairs
  never give one native code two different characters.
\<close>

theorem roundtrip:
  assumes "Charset_init descr maps = Inr cs"
    and "tables_one_to_one cs \<or> one_code_per_char (concat maps)
      \<or> one_char_per_code (concat maps)"
    and "0 \<le> n" and "n \<le> 255"
  shows "native_of_trans cs n = bytes [n] \<and> bytes [n] = Inr [n]"
proof -
  have "native_of_trans cs n = Inr [n]"
    using assms by (rule roundtrip_cases)
  moreover have "bytes [n] = Inr [n]"
    using assms(3,4) by (simp add: bytes_def)
  ultimately show ?thesis by simp
qed

theorem roundtrip_witness:
  "Charset_init [] swapped_maps = Inr swapped_table
   \<and> tables_one_to_one swapped_table
   \<and> native_of_trans swapped_table 0 = Inr [0]
   \<and> native_of_trans swapped_table 1 = Inr [1]
   \<and> Charset_init [] [ut_pairs 0 256] = Inr ut_table
   \<and> one_code_per_char (concat [ut_pairs 0 256])
   \<and> native_of_trans ut_table 0x41 = Inr [0x41]"
proof -
  have s: "tables_one_to_one swapped_table \<or> one_code_per_char (concat swapped_maps)
      \<or> one_char_per_code (concat swapped_maps)"
    using swapped_one_to_one by blast
  have f: "one_code_per_char (concat [ut_pairs 0 256])"
    by (simp add: ut_pairs_one_code_per_char)
  then have u: "tables_one_to_one ut_table \<or> one_code_per_char (concat [ut_pairs 0 256])
      \<or> one_char_per_code (concat [ut_pairs 0 256])"
    by blast
  from roundtrip [OF swapped_init s, of 0] roundtrip [OF swapped_init s, of 1]
    roundtrip [OF ut_table_init u, of "0x41"]
    swapped_init swapped_one_to_one ut_table_init f
  show ?thesis by simp
qed

text \<open>
  C2 as stated does not hold.  In \<open>stale_reverse_maps\<close> code 0 is given U+0041 and then
  U+0042, and code 1 is given U+0042 as well.  The reverse entry of U+0041 stays behind,
  so both dictionaries end with 256 entries and the constructor returns, with the codes 0
  and 1 both translated to U+0042.
\<close>

theorem forward_injective_counterexample:
  "Charset_init [] stale_reverse_maps = Inr stale_reverse_table
   \<and> Charset_trans stale_reverse_table 0 = Inr (PyStr [0x42])
   \<and> Charset_trans stale_reverse_table 1 = Inr (PyStr [0x42])"
  by (simp add: stale_reverse_init stale_reverse_trans)

text \<open>
  C2, amended.  When the constructor returns, two different native codes from 0 to 255 are
  translated to different characters, provided one of these holds: the final reverse
  dictionary has no stale entry (each of its keys is the character of some native code in
  the forward dictionary); or the pairs never give one native code two different
  characters; or the pairs never give one character to two different native codes.
\<close>

theorem forward_injective:
  assumes "Charset_init descr maps = Inr cs"
    and "no_stale_reverse cs \<or> one_char_per_code (concat maps)
      \<or> one_code_per_char (concat maps)"
    and "0 \<le> n1" and "n1 \<le> 255" and "0 \<le> n2" and "n2 \<le> 255" and "n1 \<noteq> n2"
  shows "Charset_trans cs n1 \<noteq> Charset_trans cs n2"
proof
  assume "Charset_trans cs n1 = Charset_trans cs n2"
  with assms(1-6) have "n1 = n2"
    by (rule trans_distinct_cases)
  with assms(7) show False ..
qed

theorem forward_injective_witness:
  "Charset_init [] shared_char_maps = Inr shared_char_table
   \<and> no_stale_reverse shared_char_table
   \<and> Charset_trans shared_char_table 0 \<noteq> Charset_trans shared_char_table 1
   \<and> Charset_init [] [ut_pairs 0 256] = Inr ut_table
   \<and> one_char_per_code (concat [ut_pairs 0 256])
   \<and> Charset_trans ut_table 0x41 \<noteq> Charset_trans ut_table 0x42"
proof -
  have s: "no_stale_reverse shared_char_table \<or> one_char_per_code (concat shared_char_maps)
      \<or> one_code_per_char (concat shared_char_maps)"
    using shared_char_no_stale by blast
  have f: "one_char_per_code (concat [ut_pairs 0 256])"
    by (simp add: ut_pairs_one_char_per_code)
  then have u: "no_stale_reverse ut_table \<or> one_char_per_code (concat [ut_pairs 0 256])
      \<or> one_code_per_char (concat [ut_pairs 0 256])"
    by blast
  from forward_injective [OF shared_char_init s, of 0 1]
    forward_injective [OF ut_table_init u, of "0x41" "0x42"]
    shared_char_init shared_char_no_stale ut_table_init f
  show ?thesis by simp
qed

text \<open>
  C4.  A fragment is a sequence of pairs that pass the two checks of \<^verbatim>\<open>setchars\<close>.  When
  the pairs of the fragments cover fewer than 256 distinct native codes, or fewer than
  256 distinct characters, the constructor raises the \<^verbatim>\<open>RuntimeError\<close> of an incomplete
  table, which reports the two counts.  The constructor returns only with 256 entries in
  each of the two dictionaries.  (A pair that fails a check is no part of a fragment in
  this sense: the constructor then raises the error of the first failing check, before
  it counts the entries.)
\<close>

theorem incomplete_table:
  "(list_all valid_pair (concat maps)
      \<and> (card (fst ` set (concat maps)) < 256 \<or> card (snd ` set (concat maps)) < 256)
    \<longrightarrow> Charset_init descr maps
          = Inl (RuntimeError,
                 Incomplete (card (fst ` set (concat maps))) (card (snd ` set (concat maps)))))
   \<and> (\<forall>cs. Charset_init descr maps = Inr cs
        \<longrightarrow> length (nu cs) = 256 \<and> length (un cs) = 256)
   \<and> (i < length (concat maps) \<and> list_all valid_pair (take i (concat maps))
        \<and> check_pair (concat maps ! i) = Inl e
      \<longrightarrow> Charset_init descr maps = Inl e)"
proof (intro conjI impI allI)
  assume a: "list_all valid_pair (concat maps)
      \<and> (card (fst ` set (concat maps)) < 256 \<or> card (snd ` set (concat maps)) < 256)"
  then have v: "list_all valid_pair (concat maps)" ..
  show "Charset_init descr maps
          = Inl (RuntimeError,
                 Incomplete (card (fst ` set (concat maps))) (card (snd ` set (concat maps))))"
    using a Charset_init_valid [OF v, of descr] by auto
next
  fix cs assume init: "Charset_init descr maps = Inr cs"
  note I = Charset_init_Inr [OF init]
  show "length (nu cs) = 256"
    unfolding I(2) using I(3) by (simp add: nu_fold_length)
  show "length (un cs) = 256"
    unfolding I(2) using I(4) by (simp add: un_fold_length)
next
  assume b: "i < length (concat maps) \<and> list_all valid_pair (take i (concat maps))
      \<and> check_pair (concat maps ! i) = Inl e"
  then have "setchars (empty_charset descr) (concat maps)
      = (Inl e, fold insert_pair (take i (concat maps)) (empty_charset descr))"
    by (intro setchars_first_invalid) simp_all
  then show "Charset_init descr maps = Inl e"
    by (simp add: Charset_init_concat)
qed

theorem incomplete_table_witness:
  "Charset_init [] [[(0x41, PyStr [0x41])]] = Inl (RuntimeError, Incomplete 1 1)
   \<and> Charset_init [] [ut_pairs 0 255] = Inl (RuntimeError, Incomplete 255 255)
   \<and> Charset_init [] [ut_pairs 0 256] = Inr ut_table
   \<and> length (nu ut_table) = 256 \<and> length (un ut_table) = 256
   \<and> Charset_init [] [[(0x41, PyStr [0x41]), (0x42, PyStr [0x41, 0x42])]]
       = Inl (ValueError, NotLength1 (PyStr [0x41, 0x42]))"
proof -
  have "list_all valid_pair (concat [[(0x41, PyStr [0x41])]])"
    by (simp add: valid_pair_iff)
  with incomplete_table [of "[[(0x41, PyStr [0x41])]]" "[]"]
  have one: "Charset_init [] [[(0x41, PyStr [0x41])]] = Inl (RuntimeError, Incomplete 1 1)"
    by simp
  have "list_all valid_pair (concat [ut_pairs 0 255])"
    by (simp add: ut_pairs_valid)
  moreover have "card (fst ` set (concat [ut_pairs 0 255])) = 255"
    by (simp add: ut_pairs_codes)
  moreover have "card (snd ` set (concat [ut_pairs 0 255])) = 255"
    using distinct_card [OF ut_pairs_distinct_chars [of 0 255]]
    by (simp add: length_ut_pairs)
  ultimately
  have short: "Charset_init [] [ut_pairs 0 255] = Inl (RuntimeError, Incomplete 255 255)"
    using incomplete_table [of "[ut_pairs 0 255]" "[]"] by simp
  have full: "length (nu ut_table) = 256 \<and> length (un ut_table) = 256"
    using incomplete_table [of "[ut_pairs 0 256]" "[]"] ut_table_init by blast
  let ?m = "[[(0x41, PyStr [0x41]), (0x42, PyStr [0x41, 0x42])]]"
  have "(1::nat) < length (concat ?m) \<and> list_all valid_pair (take 1 (concat ?m))
      \<and> check_pair (concat ?m ! 1) = Inl (ValueError, NotLength1 (PyStr [0x41, 0x42]))"
    by (simp add: valid_pair_iff check_pair_def ncheck_def ucheck_def)
  with incomplete_table [of ?m "[]" 1 "(ValueError, NotLength1 (PyStr [0x41, 0x42]))"]
  have bad: "Charset_init [] ?m = Inl (ValueError, NotLength1 (PyStr [0x41, 0x42]))"
    by blast
  from one short full bad ut_table_init show ?thesis by simp
qed

section \<open>Properties of chrsub\<close>

text \<open>
  C5 as stated does not hold.  The loop replaces every pair whose code is the
  replacement's, not one of them: with two pairs of code 1 in the input, both are
  replaced and two elements change.
\<close>

theorem chrsub_counterexample:
  "chrsub [(1, PyStr [0x41]), (1, PyStr [0x42])] (1, PyStr [0x43])
     = Inr [(1, PyStr [0x43]), (1, PyStr [0x43])]
   \<and> changed_count [(1::int, PyStr [0x41]), (1, PyStr [0x42])]
        [(1, PyStr [0x43]), (1, PyStr [0x43])] = 2"
  by (simp add: chrsub_eq changed_count_def)

text \<open>
  C5, amended.  When the replacement's native code occurs in the input, \<^verbatim>\<open>chrsub\<close> returns
  a sequence of the same length and in the original order, in which every pair with the
  replacement's native code has been replaced by the replacement pair and every other
  pair is unchanged.  The number of changed elements is at most the number of pairs with
  that code, so at most one element changes when the code occurs once.
\<close>

theorem chrsub_replaces:
  assumes "\<exists>m \<in> set codechars. fst m = fst replacement"
  shows "\<exists>ret. chrsub codechars replacement = Inr ret
    \<and> length ret = length codechars
    \<and> (\<forall>i < length codechars.
          ret ! i = (if fst (codechars ! i) = fst replacement then replacement
                     else codechars ! i))
    \<and> changed_count codechars ret
        \<le> length (filter (\<lambda>m. fst m = fst replacement) codechars)"
proof -
  let ?ret = "map (\<lambda>m. if fst m = fst replacement then replacement else m) codechars"
  have "chrsub codechars replacement = Inr ?ret"
    using assms by (simp add: chrsub_eq)
  moreover have "length ?ret = length codechars"
    by simp
  moreover have "\<forall>i < length codechars.
      ?ret ! i = (if fst (codechars ! i) = fst replacement then replacement else codechars ! i)"
    by simp
  moreover have "changed_count codechars ?ret
      \<le> length (filter (\<lambda>m. fst m = fst replacement) codechars)"
    by (rule changed_count_map)
  ultimately show ?thesis by blast
qed

theorem chrsub_replaces_witness:
  "(\<exists>m \<in> set [(0x41, PyStr [0x41]), (0x42, PyStr [0x42])]. fst m = fst (0x42::int, PyStr [0x43]))
   \<and> chrsub [(0x41, PyStr [0x41]), (0x42, PyStr [0x42])] (0x42, PyStr [0x43])
       = Inr [(0x41, PyStr [0x41]), (0x42, PyStr [0x43])]
   \<and> changed_count [(0x41::int, PyStr [0x41]), (0x42, PyStr [0x42])]
        [(0x41, PyStr [0x41]), (0x42, PyStr [0x43])] \<le> 1"
proof -
  let ?cc = "[(0x41::int, PyStr [0x41]), (0x42, PyStr [0x42])]"
  let ?r = "(0x42::int, PyStr [0x43])"
  have h: "\<exists>m \<in> set ?cc. fst m = fst ?r"
    by simp
  from chrsub_replaces [OF h] obtain ret where ret: "chrsub ?cc ?r = Inr ret"
    and len: "length ret = length ?cc"
    and nth: "\<forall>i < length ?cc. ret ! i = (if fst (?cc ! i) = fst ?r then ?r else ?cc ! i)"
    and cnt: "changed_count ?cc ret \<le> length (filter (\<lambda>m. fst m = fst ?r) ?cc)"
    by blast
  from nth have "ret ! 0 = (0x41, PyStr [0x41])" and "ret ! 1 = (0x42, PyStr [0x43])"
    by simp_all
  with len have "ret = [(0x41, PyStr [0x41]), (0x42, PyStr [0x43])]"
    by (cases ret; cases "tl ret") auto
  with ret cnt h show ?thesis by simp
qed

text \<open>
  C6.  \<^verbatim>\<open>chrsub\<close> raises its \<^verbatim>\<open>LookupError\<close> exactly when no pair of the input has the
  native code of the replacement; when some pair has it, \<^verbatim>\<open>chrsub\<close> returns.
\<close>

theorem chrsub_lookup_error:
  "(chrsub codechars replacement = Inl (LookupError, NotReplaced replacement)
      \<longleftrightarrow> (\<forall>m \<in> set codechars. fst m \<noteq> fst replacement))
   \<and> (isl (chrsub codechars replacement)
      \<longleftrightarrow> (\<forall>m \<in> set codechars. fst m \<noteq> fst replacement))
   \<and> ((\<exists>m \<in> set codechars. fst m = fst replacement)
      \<longrightarrow> (\<exists>ret. chrsub codechars replacement = Inr ret))"
  by (auto simp: chrsub_eq)

theorem chrsub_lookup_error_witness:
  "chrsub [(0x41, PyStr [0x41]), (0x42, PyStr [0x42])] (0x99, PyStr [0x5A])
     = Inl (LookupError, NotReplaced (0x99, PyStr [0x5A]))
   \<and> \<not> (\<exists>m \<in> set [(0x41::int, PyStr [0x41]), (0x42, PyStr [0x42])].
         fst m = fst (0x99::int, PyStr [0x5A]))
   \<and> (\<exists>m \<in> set [(0x41::int, PyStr [0x41]), (0x42, PyStr [0x42])].
         fst m = fst (0x42::int, PyStr [0x43]))
   \<and> (\<exists>ret. chrsub [(0x41, PyStr [0x41]), (0x42, PyStr [0x42])] (0x42, PyStr [0x43]) = Inr ret)"
  using chrsub_lookup_error [of "[(0x41, PyStr [0x41]), (0x42, PyStr [0x42])]"
      "(0x99, PyStr [0x5A])"]
    chrsub_lookup_error [of "[(0x41, PyStr [0x41]), (0x42, PyStr [0x42])]"
      "(0x42, PyStr [0x43])"]
  by simp

section \<open>Properties of Unimplemented and UTCharset\<close>

text \<open>
  C8.  For a placeholder created with any name and description, \<^verbatim>\<open>trans\<close> and \<^verbatim>\<open>native\<close>
  raise \<^verbatim>\<open>NotImplementedError\<close> for an argument of any type and value; the message is
  the name between \<^verbatim>\<open>charset '\<close> and \<^verbatim>\<open>' \<close>, so it contains the name.
\<close>

theorem unimplemented_raises:
  "Unimplemented_trans (Unimplemented_init nm descr) x
     = Inl (NotImplementedError,
            Message (lit ''charset '' @ lit [CHR 0x27] @ nm @ lit [CHR 0x27] @ lit '' ''))
   \<and> Unimplemented_native (Unimplemented_init nm descr) y
     = Inl (NotImplementedError,
            Message (lit ''charset '' @ lit [CHR 0x27] @ nm @ lit [CHR 0x27] @ lit '' ''))
   \<and> (\<exists>pre post. lit ''charset '' @ lit [CHR 0x27] @ nm @ lit [CHR 0x27] @ lit '' ''
         = pre @ nm @ post)"
proof -
  have "lit ''charset '' @ lit [CHR 0x27] @ nm @ lit [CHR 0x27] @ lit '' ''
      = (lit ''charset '' @ lit [CHR 0x27]) @ nm @ (lit [CHR 0x27] @ lit '' '')"
    by simp
  then have "\<exists>pre post. lit ''charset '' @ lit [CHR 0x27] @ nm @ lit [CHR 0x27] @ lit '' ''
      = pre @ nm @ post"
    by blast
  then show ?thesis
    by (simp add: Unimplemented_trans_def Unimplemented_native_def unimpl_def
        Unimplemented_init_def)
qed

text \<open>
  C10.  \<^verbatim>\<open>UTCharset\<close> is a bijection between the codes 0 to 255 and the code points
  U+F000 to U+F0FF: for \<open>n\<close> from 0 to 255, \<^verbatim>\<open>trans(n)\<close> is \<^verbatim>\<open>chr(0xF000+n)\<close> and
  \<^verbatim>\<open>native(trans(n))\<close> is \<open>n\<close>; for a one-character string \<open>u\<close> of a code point \<open>c\<close> from
  U+F000 to U+F0FF, \<^verbatim>\<open>native(u)\<close> is \<open>c - 0xF000\<close> and \<^verbatim>\<open>trans(native(u))\<close> is \<open>u\<close>.
\<close>

theorem utcharset_bijection:
  "(0 \<le> n \<and> n \<le> 255
      \<longrightarrow> UTCharset_trans n = py_chr (0xF000 + n)
        \<and> UTCharset_trans n = Inr (PyStr [nat (0xF000 + n)])
        \<and> UTCharset_native_of_trans n = Inr n)
   \<and> (0xF000 \<le> c \<and> c < 0xF100
      \<longrightarrow> UTCharset_native (PyStr [c]) = Inr (int c - 0xF000)
        \<and> UTCharset_trans_of_native (PyStr [c]) = Inr (PyStr [c]))"
proof (intro conjI impI)
  assume n: "0 \<le> n \<and> n \<le> 255"
  then show "UTCharset_trans n = py_chr (0xF000 + n)"
    by (simp add: UTCharset_trans_def)
  from n show t: "UTCharset_trans n = Inr (PyStr [nat (0xF000 + n)])"
    by (simp add: UTCharset_trans_def py_chr_def)
  from n have "\<not> nat (0xF000 + n) < 0xF000" and "nat (0xF000 + n) < 0xF100"
    and "int (nat (0xF000 + n)) - 0xF000 = n"
    by arith+
  then have "UTCharset_native (PyStr [nat (0xF000 + n)]) = Inr n"
    by (simp add: UTCharset_native_def str_ge_def py_ord_def)
  with t show "UTCharset_native_of_trans n = Inr n"
    by (simp add: UTCharset_native_of_trans_def)
next
  assume c: "0xF000 \<le> c \<and> c < 0xF100"
  then show u: "UTCharset_native (PyStr [c]) = Inr (int c - 0xF000)"
    by (simp add: UTCharset_native_def str_ge_def py_ord_def)
  from c have "nat (0xF000 + (int c - 0xF000)) = c"
    by simp
  with c have "UTCharset_trans (int c - 0xF000) = Inr (PyStr [c])"
    by (simp add: UTCharset_trans_def py_chr_def)
  with u show "UTCharset_trans_of_native (PyStr [c]) = Inr (PyStr [c])"
    by (simp add: UTCharset_trans_of_native_def)
qed

theorem utcharset_bijection_witness:
  "UTCharset_trans 0x41 = Inr (PyStr [0xF041])
   \<and> UTCharset_native_of_trans 0x41 = Inr 0x41
   \<and> UTCharset_native (PyStr [0xF0FF]) = Inr 0xFF
   \<and> UTCharset_trans_of_native (PyStr [0xF0FF]) = Inr (PyStr [0xF0FF])"
  using utcharset_bijection [of "0x41" "0xF0FF"] by (simp add: py_chr_def)

end
